theory Spec2Isabelle
  imports Main "HOL-Library.Word"
begin

unbundle bit_operations_syntax

section \<open>Data model of \<open>main.cpp\<close>\<close>

text \<open>
  The three matchers of \<open>src/main.cpp\<close> count the occurrences of the 3-bit pattern
  \<open>0b110\<close> in a bit stream that arrives one byte per \<open>pattern_match\<close> call, most
  significant bit first.

  Machine types: \<open>unsigned char\<close> is an 8-bit word, \<open>unsigned short\<close> a 16-bit word and
  \<open>int\<close> a 32-bit word whose value is read with \<open>sint\<close> (two's complement); \<open>+\<close> on
  words wraps around. (Overflow of a signed \<open>int\<close> is undefined in C++; the model takes
  the wrap-around of the two's complement targets.) The loop index \<open>i\<close> of the two \<open>for\<close> loops only takes the
  values \<open>7, \<dots>, -1\<close> and is an \<open>int\<close> of HOL.
\<close>

type_synonym u8 = "8 word"
type_synonym u16 = "16 word"
type_synonym i32 = "32 word"

text \<open>
  \<open>class Method\<close>: the constant member \<open>pattern{0b110}\<close> and the running total
  \<open>total_count{0}\<close>. The member \<open>total_time\<close> is only written by the timing code of
  \<open>main\<close> and is left out.
\<close>

definition pattern :: u8 where
  "pattern = 6"

record Method =
  total_count :: i32

text \<open>\<open>class StateMachine\<close> adds \<open>int pos{0}\<close>.\<close>

record StateMachine = Method +
  pos :: i32

text \<open>
  \<open>class SlidingBitmask\<close> adds \<open>unsigned char prev{0}\<close>, and \<open>class Lut\<close> adds
  \<open>unsigned char prev{0}\<close> and \<open>int count_lut[1024]{}\<close>. The two \<open>prev\<close> members get
  the class as a prefix, since both records live in one name space.
\<close>

record SlidingBitmask = Method +
  sb_prev :: u8

record Lut = Method +
  lut_prev :: u8
  count_lut :: "i32 list"

section \<open>StateMachine\<close>

text \<open>
  One iteration of the \<open>for\<close> loop of \<open>StateMachine::pattern_match\<close>, on the pair
  \<open>(pos, counter)\<close>: \<open>bit = sample & (1 << i)\<close>, then the \<open>switch (pos)\<close> with its
  cases \<open>0\<close> and \<open>1\<close>, \<open>2\<close> and \<open>default\<close>. With \<open>i\<close> from 0 to 7 the value of
  \<open>sample & (1 << i)\<close> is at most 128 and fits the \<open>unsigned char bit\<close>.
\<close>

definition sm_step :: "u8 \<Rightarrow> nat \<Rightarrow> i32 \<times> i32 \<Rightarrow> i32 \<times> i32" where
  "sm_step sample i = (\<lambda>(p, counter).
     let b = sample AND push_bit i 1 in
     if p = 0 \<or> p = 1 then
       (if b \<noteq> 0 then (p + 1, counter) else (0, counter))
     else if p = 2 then
       (if b \<noteq> 0 then (p, counter) else (0, counter + 1))
     else (p, counter))"

text \<open>\<open>for (int i = 7; i >= 0; i--)\<close>, entered with the current value of \<open>i\<close>.\<close>

function sm_loop :: "int \<Rightarrow> u8 \<Rightarrow> i32 \<times> i32 \<Rightarrow> i32 \<times> i32" where
  "sm_loop i sample st =
     (if 0 \<le> i then sm_loop (i - 1) sample (sm_step sample (nat i) st) else st)"
  by pat_completeness auto
termination
  by (relation "measure (\<lambda>(i, sample, st). nat (i + 1))") auto

declare sm_loop.simps [simp del]

definition StateMachine_new :: StateMachine where
  "StateMachine_new = \<lparr>total_count = 0, pos = 0\<rparr>"

text \<open>
  \<open>StateMachine::pattern_match\<close>: the returned count and the object after the call.
\<close>

definition StateMachine_pattern_match :: "StateMachine \<Rightarrow> u8 \<Rightarrow> i32 \<times> StateMachine" where
  "StateMachine_pattern_match m sample =
     (let (p, counter) = sm_loop 7 sample (pos m, 0) in
      (counter, m\<lparr>total_count := total_count m + counter, pos := p\<rparr>))"

section \<open>SlidingBitmask\<close>

text \<open>
  \<open>combined_samples = (static_cast<unsigned short>(prev) << 8) | sample\<close>. The operands
  are promoted to \<open>int\<close>, where the value stays below \<open>2^16\<close>, so that the conversion
  back to \<open>unsigned short\<close> loses nothing.
\<close>

definition combine :: "u8 \<Rightarrow> u8 \<Rightarrow> u16" where
  "combine p sample = push_bit 8 (ucast p) OR ucast sample"

text \<open>
  The test \<open>((combined_samples >> i) & 0x07) == pattern\<close>. It is evaluated on \<open>int\<close>,
  to which \<open>combined_samples\<close> and \<open>pattern\<close> are promoted with their values; all the
  values are below \<open>2^16\<close>, so 16 bits hold the comparison.
\<close>

definition window_match :: "u16 \<Rightarrow> nat \<Rightarrow> bool" where
  "window_match combined_samples i \<longleftrightarrow> drop_bit i combined_samples AND 7 = ucast pattern"

definition sb_step :: "u16 \<Rightarrow> nat \<Rightarrow> i32 \<Rightarrow> i32" where
  "sb_step combined_samples i counter =
     (if window_match combined_samples i then counter + 1 else counter)"

function sb_loop :: "int \<Rightarrow> u16 \<Rightarrow> i32 \<Rightarrow> i32" where
  "sb_loop i combined_samples counter =
     (if 0 \<le> i then sb_loop (i - 1) combined_samples (sb_step combined_samples (nat i) counter)
      else counter)"
  by pat_completeness auto
termination
  by (relation "measure (\<lambda>(i, combined_samples, counter). nat (i + 1))") auto

declare sb_loop.simps [simp del]

definition SlidingBitmask_new :: SlidingBitmask where
  "SlidingBitmask_new = \<lparr>total_count = 0, sb_prev = 0\<rparr>"

definition SlidingBitmask_pattern_match ::
  "SlidingBitmask \<Rightarrow> u8 \<Rightarrow> i32 \<times> SlidingBitmask" where
  "SlidingBitmask_pattern_match m sample =
     (let counter = sb_loop 7 (combine (sb_prev m) sample) 0 in
      (counter, m\<lparr>total_count := total_count m + counter, sb_prev := sample\<rparr>))"

section \<open>Lut\<close>

text \<open>
  The body of the \<open>while\<close> loop of the constructor: a new \<open>SlidingBitmask method2\<close> is
  fed \<open>combined_samples >> 8\<close> and then \<open>combined_samples & 0xFF\<close> (both converted to the
  parameter type \<open>unsigned char\<close>), and the sum of the two returned counts is the entry.
\<close>

definition lut_entry :: "u16 \<Rightarrow> i32" where
  "lut_entry combined_samples =
     (let method2 = SlidingBitmask_new;
          (counter1, method2) = SlidingBitmask_pattern_match method2 (ucast (drop_bit 8 combined_samples));
          (counter2, method2) = SlidingBitmask_pattern_match method2 (ucast (combined_samples AND 0xFF))
      in counter1 + counter2)"

text \<open>
  \<open>while (combined_samples < std::size(count_lut))\<close> with \<open>std::size(count_lut) = 1024\<close>.
\<close>

function lut_loop :: "u16 \<Rightarrow> i32 list \<Rightarrow> i32 list" where
  "lut_loop combined_samples lut =
     (if unat combined_samples < 1024
      then lut_loop (combined_samples + 1) (lut[unat combined_samples := lut_entry combined_samples])
      else lut)"
  by pat_completeness auto
termination
proof (relation "measure (\<lambda>(combined_samples, lut). 1024 - unat combined_samples)")
  show "wf (measure (\<lambda>(combined_samples, lut). 1024 - unat combined_samples))"
    by simp
next
  fix combined_samples :: u16 and lut :: "i32 list"
  assume less: "unat combined_samples < 1024"
  then have "unat (combined_samples + 1) = unat combined_samples + 1"
    by (simp add: unat_word_ariths)
  with less show "((combined_samples + 1, lut[unat combined_samples := lut_entry combined_samples]),
      (combined_samples, lut)) \<in> measure (\<lambda>(combined_samples, lut). 1024 - unat combined_samples)"
    by simp
qed

declare lut_loop.simps [simp del]

text \<open>The constructor \<open>Lut::Lut()\<close>, run on the zero-initialised members.\<close>

definition Lut_new :: Lut where
  "Lut_new = \<lparr>total_count = 0, lut_prev = 0, count_lut = lut_loop 0 (replicate 1024 0)\<rparr>"

text \<open>
  \<open>Lut::pattern_match\<close>. The index is masked with \<open>0x3FF\<close> and so is below the 1024
  entries of the array.
\<close>

definition Lut_pattern_match :: "Lut \<Rightarrow> u8 \<Rightarrow> i32 \<times> Lut" where
  "Lut_pattern_match m sample =
     (let combined_samples = combine (lut_prev m) sample AND 0x3FF;
          counter = count_lut m ! unat combined_samples
      in (counter, m\<lparr>total_count := total_count m + counter, lut_prev := sample\<rparr>))"

section \<open>Feeding a byte sequence\<close>

text \<open>
  The inner loop of \<open>main\<close>, \<open>method->pattern_match(samples[i])\<close> for each sample in
  order; the returned counts are dropped there.
\<close>

definition feed :: "('m \<Rightarrow> u8 \<Rightarrow> i32 \<times> 'm) \<Rightarrow> u8 list \<Rightarrow> 'm \<Rightarrow> 'm" where
  "feed pattern_match samples m = fold (\<lambda>sample m. snd (pattern_match m sample)) samples m"

section \<open>The transition relation as the specification words it\<close>

text \<open>
  The specification describes the automaton of the state machine on three states, one
  bit at a time: from state 0 or 1 a 1-bit advances the state by one and a 0-bit resets to
  state 0; from state 2 a 1-bit stays at 2; from state 2 a 0-bit records one match and
  resets to state 0. The second component is the number of matches recorded.
\<close>

datatype position = P0 | P1 | P2

fun transition :: "position \<Rightarrow> bool \<Rightarrow> position \<times> nat" where
  "transition P0 True = (P1, 0)"
| "transition P1 True = (P2, 0)"
| "transition P0 False = (P0, 0)"
| "transition P1 False = (P0, 0)"
| "transition P2 True = (P2, 0)"
| "transition P2 False = (P0, 1)"

text \<open>The transition applied to a sequence of bits in order, the matches summed up.\<close>

fun transitions :: "position \<Rightarrow> bool list \<Rightarrow> position \<times> nat" where
  "transitions s [] = (s, 0)"
| "transitions s (b # bs) =
     (let (s', k) = transition s b; (s'', k') = transitions s' bs in (s'', k + k'))"

text \<open>The bits of a byte from bit 7 down to bit 0.\<close>

definition msb_first :: "u8 \<Rightarrow> bool list" where
  "msb_first sample = map (bit sample) [7, 6, 5, 4, 3, 2, 1, 0]"

text \<open>The value of \<open>pos\<close> that stands for a state.\<close>

fun pos_code :: "position \<Rightarrow> i32" where
  "pos_code P0 = 0"
| "pos_code P1 = 1"
| "pos_code P2 = 2"

section \<open>Notions used in the proofs\<close>

text \<open>
  The position of the automaton after a bit \<open>b1\<close> that was preceded by a bit \<open>b2\<close>: two
  1-bits give 2, a 1-bit after a 0-bit gives 1, and a 0-bit gives 0.
\<close>

definition pos_of :: "bool \<Rightarrow> bool \<Rightarrow> i32" where
  "pos_of b2 b1 = (if b1 then (if b2 then 2 else 1) else 0)"

text \<open>The position that the two low bits of a previous byte stand for.\<close>

definition carried :: "u8 \<Rightarrow> i32" where
  "carried p = pos_of (bit p 1) (bit p 0)"

text \<open>
  The number of the offsets \<open>7, \<dots>, 0\<close> at which the 3-bit window of a combined value
  equals the pattern.
\<close>

definition window_count :: "u16 \<Rightarrow> nat" where
  "window_count combined_samples = length (filter (window_match combined_samples) (rev [0..<8]))"

text \<open>The count that \<open>SlidingBitmask::pattern_match\<close> returns for a previous byte and a sample.\<close>

definition sb_count :: "u8 \<Rightarrow> u8 \<Rightarrow> i32" where
  "sb_count p sample = sb_loop 7 (combine p sample) 0"

text \<open>
  The three objects are in step: the automaton stands where the two low bits of the
  previous byte put it, the carried bytes and the totals agree, and the table is the one
  the constructor built.
\<close>

definition coupled :: "StateMachine \<Rightarrow> SlidingBitmask \<Rightarrow> Lut \<Rightarrow> bool" where
  "coupled sm sb lut \<longleftrightarrow>
     pos sm = carried (sb_prev sb) \<and> lut_prev lut = sb_prev sb \<and>
     count_lut lut = count_lut Lut_new \<and>
     total_count sm = total_count sb \<and> total_count lut = total_count sb"

section \<open>Bits of the constants and of the combined value\<close>

lemma seven_bits: "bit (7 :: int) n \<longleftrightarrow> n < 3"
proof -
  have eq: "(7 :: int) = mask 3" by (simp add: mask_eq_exp_minus_1)
  show ?thesis unfolding eq by (auto simp add: bit_mask_iff)
qed

lemma six_bits: "bit (6 :: int) n \<longleftrightarrow> n = 1 \<or> n = 2"
proof -
  have eq: "(6 :: int) = push_bit 1 (mask 2)" by (simp add: mask_eq_exp_minus_1)
  show ?thesis unfolding eq bit_push_bit_iff bit_mask_iff by auto
qed

lemma three_bits: "bit (3 :: int) n \<longleftrightarrow> n < 2"
proof -
  have eq: "(3 :: int) = mask 2" by (simp add: mask_eq_exp_minus_1)
  show ?thesis unfolding eq by (auto simp add: bit_mask_iff)
qed

lemma ff_bits: "bit (255 :: int) n \<longleftrightarrow> n < 8"
proof -
  have eq: "(255 :: int) = mask 8" by (simp add: mask_eq_exp_minus_1)
  show ?thesis unfolding eq by (auto simp add: bit_mask_iff)
qed

lemma mask10_bits: "bit (1023 :: int) n \<longleftrightarrow> n < 10"
proof -
  have eq: "(1023 :: int) = mask 10" by (simp add: mask_eq_exp_minus_1)
  show ?thesis unfolding eq by (auto simp add: bit_mask_iff)
qed

text \<open>A window matches exactly when its bits read 1, 1, 0 from the top.\<close>

lemma window_match_bits:
  "window_match c i \<longleftrightarrow> bit c (i + 2) \<and> bit c (i + 1) \<and> \<not> bit c i"
proof
  assume "window_match c i"
  then have eq: "bit (drop_bit i c AND 7) n = bit (6 :: u16) n" for n
    by (simp add: window_match_def pattern_def)
  from eq [of 0] eq [of 1] eq [of 2]
  show "bit c (i + 2) \<and> bit c (i + 1) \<and> \<not> bit c i"
    by (simp add: bit_and_iff bit_drop_bit_eq seven_bits six_bits)
next
  assume b: "bit c (i + 2) \<and> bit c (i + 1) \<and> \<not> bit c i"
  have "drop_bit i c AND 7 = 6"
  proof (rule bit_word_eqI)
    fix n :: nat
    consider "n = 0" | "n = 1" | "n = 2" | "3 \<le> n" by linarith
    then show "bit (drop_bit i c AND 7) n = bit (6 :: u16) n"
      using b by cases (auto simp add: bit_and_iff bit_drop_bit_eq seven_bits six_bits)
  qed
  then show "window_match c i"
    by (simp add: window_match_def pattern_def)
qed

lemma bit_combine: "bit (combine p s) n \<longleftrightarrow> (if n < 8 then bit s n else bit p (n - 8))"
  unfolding combine_def
  by (auto simp add: bit_or_iff bit_push_bit_iff bit_ucast_iff dest: bit_imp_le_length)

lemma combine_split: "combine (ucast (drop_bit 8 c)) (ucast (c AND 0xFF)) = c"
proof (rule bit_word_eqI)
  fix n :: nat
  assume "n < LENGTH(16)"
  then show "bit (combine (ucast (drop_bit 8 c)) (ucast (c AND 0xFF))) n = bit c n"
    by (auto simp add: bit_combine bit_ucast_iff bit_and_iff bit_drop_bit_eq ff_bits)
qed

lemma high_bits_clear:
  fixes c :: u16
  assumes "unat c < 1024"
  shows "10 \<le> n \<Longrightarrow> \<not> bit c n"
proof -
  from assms have "c < 2 ^ 10" by (simp add: word_less_nat_alt)
  then have "c AND mask 10 = c" by (rule less_mask_eq)
  then have "bit c n = bit (c AND mask 10) n" by simp
  then show "10 \<le> n \<Longrightarrow> \<not> bit c n" by (simp add: bit_and_iff bit_mask_iff)
qed

lemma masked_index_less: "unat (c AND 0x3FF) < 1024" for c :: u16
proof -
  have "c AND 0x3FF \<le> 0x3FF" by (rule word_and_le1)
  then have "unat (c AND 0x3FF) \<le> unat (0x3FF :: u16)" by (simp add: word_le_nat_alt)
  then show ?thesis by simp
qed

section \<open>The two loops, unrolled and compared\<close>

lemma sm_loop_fold: "sm_loop (int n - 1) sample st = fold (sm_step sample) (rev [0..<n]) st"
proof (induction n arbitrary: st)
  case 0
  show ?case by (simp add: sm_loop.simps)
next
  case (Suc n)
  have "sm_loop (int (Suc n) - 1) sample st = sm_loop (int n - 1) sample (sm_step sample n st)"
    by (subst sm_loop.simps) simp
  with Suc show ?case by simp
qed

lemma sb_loop_fold: "sb_loop (int n - 1) c k = fold (sb_step c) (rev [0..<n]) k"
proof (induction n arbitrary: k)
  case 0
  show ?case by (simp add: sb_loop.simps)
next
  case (Suc n)
  have "sb_loop (int (Suc n) - 1) c k = sb_loop (int n - 1) c (sb_step c n k)"
    by (subst sb_loop.simps) simp
  with Suc show ?case by simp
qed

lemma sm_loop_7: "sm_loop 7 sample st = fold (sm_step sample) (rev [0..<8]) st"
  using sm_loop_fold [of 8 sample st] by simp

lemma sb_loop_7: "sb_loop 7 c k = fold (sb_step c) (rev [0..<8]) k"
  using sb_loop_fold [of 8 c k] by simp

lemma sm_step_bits:
  "sm_step sample i (pos_of b2 b1, k) =
     (pos_of b1 (bit sample i), if b2 \<and> b1 \<and> \<not> bit sample i then k + 1 else k)"
  by (simp add: sm_step_def pos_of_def Let_def bit_iff_and_push_bit_not_eq_0)

lemma folds_coupled:
  assumes "n \<le> 8"
  shows "fold (sm_step sample) (rev [0..<n])
           (pos_of (bit (combine p sample) (n + 1)) (bit (combine p sample) n), k)
       = (carried sample, fold (sb_step (combine p sample)) (rev [0..<n]) k)"
  using assms
proof (induction n arbitrary: k)
  case 0
  show ?case by (simp add: carried_def bit_combine)
next
  case (Suc n)
  then have n: "n < 8" by simp
  then have low: "bit (combine p sample) n = bit sample n"
    by (simp add: bit_combine)
  have step: "sm_step sample n
        (pos_of (bit (combine p sample) (Suc n + 1)) (bit (combine p sample) (Suc n)), k)
      = (pos_of (bit (combine p sample) (n + 1)) (bit (combine p sample) n),
         sb_step (combine p sample) n k)"
    by (simp add: sm_step_bits sb_step_def window_match_bits low)
  from Suc.IH [of "sb_step (combine p sample) n k"] n step show ?case
    by simp
qed

lemma sm_loop_sb_loop:
  "sm_loop 7 sample (carried p, 0) = (carried sample, sb_count p sample)"
proof -
  have "carried p = pos_of (bit (combine p sample) (8 + 1)) (bit (combine p sample) 8)"
    by (simp add: carried_def bit_combine)
  then show ?thesis
    using folds_coupled [of 8 sample p 0] by (simp add: sm_loop_7 sb_loop_7 sb_count_def)
qed

section \<open>Counting windows\<close>

lemma fold_sb_step: "fold (sb_step c) xs k = k + of_nat (length (filter (window_match c) xs))"
  by (induction xs arbitrary: k) (simp_all add: sb_step_def)

lemma sb_loop_window_count: "sb_loop 7 c 0 = of_nat (window_count c)"
  by (simp add: sb_loop_7 fold_sb_step window_count_def)

lemma window_count_le: "window_count c \<le> 8"
proof -
  have "window_count c \<le> length (rev [0..<8])"
    unfolding window_count_def by (rule length_filter_le)
  then show ?thesis by simp
qed

lemma sint_window_count: "sint (of_nat (window_count c) :: i32) = int (window_count c)"
proof -
  have "window_count c \<le> 8" by (rule window_count_le)
  then have "signed_take_bit 31 (int (window_count c)) = int (window_count c)"
    by (intro signed_take_bit_int_eq_self) simp_all
  then show ?thesis
    by (simp add: signed_of_nat)
qed

lemma window_count_cong:
  assumes "\<And>n. n < 10 \<Longrightarrow> bit c n = bit c' n"
  shows "window_count c = window_count c'"
proof -
  have "filter (window_match c) (rev [0..<8]) = filter (window_match c') (rev [0..<8])"
  proof (rule filter_cong [OF refl])
    fix i assume "i \<in> set (rev [0..<8])"
    then have "i < 8" by simp
    then show "window_match c i = window_match c' i"
      by (simp add: window_match_bits assms)
  qed
  then show ?thesis by (simp add: window_count_def)
qed

lemma window_count_masked: "window_count (c AND 0x3FF) = window_count c"
  by (rule window_count_cong) (simp add: bit_and_iff mask10_bits)

lemma window_count_high:
  fixes c :: u16
  assumes "unat c < 1024"
  shows "window_count (combine 0 (ucast (drop_bit 8 c))) = 0"
proof -
  have "\<not> window_match (combine 0 (ucast (drop_bit 8 c))) i" for i
    using high_bits_clear [OF assms, of "8 + (i + 2)"]
    by (simp add: window_match_bits bit_combine bit_ucast_iff bit_drop_bit_eq)
  then show ?thesis by (simp add: window_count_def)
qed

section \<open>The table of the constructor\<close>

lemma lut_entry_window_count:
  assumes "unat c < 1024"
  shows "lut_entry c = of_nat (window_count c)"
  by (simp add: lut_entry_def SlidingBitmask_pattern_match_def SlidingBitmask_new_def Let_def
      sb_loop_window_count window_count_high [OF assms] combine_split)

lemma lut_loop_entries:
  "length lut = 1024 \<Longrightarrow>
     length (lut_loop c lut) = 1024 \<and>
     (\<forall>j<1024. lut_loop c lut ! j = (if unat c \<le> j then lut_entry (of_nat j) else lut ! j))"
proof (induction c lut rule: lut_loop.induct)
  case (1 c lut)
  show ?case
  proof (cases "unat c < 1024")
    case True
    then have suc: "unat (c + 1) = unat c + 1"
      by (simp add: unat_word_ariths)
    have unfold: "lut_loop c lut = lut_loop (c + 1) (lut[unat c := lut_entry c])"
      using True by (subst lut_loop.simps) simp
    from "1.IH" [OF True] "1.prems"
    have IH: "length (lut_loop (c + 1) (lut[unat c := lut_entry c])) = 1024"
      "\<And>j. j < 1024 \<Longrightarrow> lut_loop (c + 1) (lut[unat c := lut_entry c]) ! j =
         (if unat (c + 1) \<le> j then lut_entry (of_nat j) else lut[unat c := lut_entry c] ! j)"
      by simp_all
    show ?thesis
    proof (intro conjI allI impI)
      show "length (lut_loop c lut) = 1024" by (simp add: unfold IH(1))
    next
      fix j :: nat assume j: "j < 1024"
      show "lut_loop c lut ! j = (if unat c \<le> j then lut_entry (of_nat j) else lut ! j)"
      proof (cases "j = unat c")
        case True
        with j "1.prems" show ?thesis by (simp add: unfold IH(2) suc)
      next
        case False
        with j "1.prems" show ?thesis by (auto simp add: unfold IH(2) suc)
      qed
    qed
  next
    case False
    then have "lut_loop c lut = lut" by (subst lut_loop.simps) simp
    with False "1.prems" show ?thesis by simp
  qed
qed

lemma count_lut_new:
  assumes "j < 1024"
  shows "count_lut Lut_new ! j = lut_entry (of_nat j)"
  using lut_loop_entries [of "replicate 1024 0" 0] assms by (simp add: Lut_new_def)

lemma length_count_lut_new: "length (count_lut Lut_new) = 1024"
  using lut_loop_entries [of "replicate 1024 0" 0] by (simp add: Lut_new_def)

lemma lut_lookup:
  "count_lut Lut_new ! unat (combine p sample AND 0x3FF) = sb_count p sample"
proof -
  let ?c = "combine p sample AND 0x3FF"
  have less: "unat ?c < 1024" by (rule masked_index_less)
  then have "count_lut Lut_new ! unat ?c = lut_entry (of_nat (unat ?c))"
    by (rule count_lut_new)
  also have "\<dots> = lut_entry ?c" by simp
  also have "\<dots> = of_nat (window_count ?c)"
    using less by (rule lut_entry_window_count)
  also have "\<dots> = sb_count p sample"
    by (simp add: window_count_masked sb_count_def sb_loop_window_count)
  finally show ?thesis .
qed

section \<open>One call of each matcher\<close>

lemma sb_pattern_match_eq:
  "SlidingBitmask_pattern_match m sample =
     (sb_count (sb_prev m) sample,
      m\<lparr>total_count := total_count m + sb_count (sb_prev m) sample, sb_prev := sample\<rparr>)"
  by (simp add: SlidingBitmask_pattern_match_def sb_count_def Let_def)

lemma sm_pattern_match_eq:
  assumes "pos m = carried p"
  shows "StateMachine_pattern_match m sample =
     (sb_count p sample, m\<lparr>total_count := total_count m + sb_count p sample, pos := carried sample\<rparr>)"
  using assms by (simp add: StateMachine_pattern_match_def sm_loop_sb_loop)

lemma lut_pattern_match_eq:
  assumes "count_lut m = count_lut Lut_new"
  shows "Lut_pattern_match m sample =
     (sb_count (lut_prev m) sample,
      m\<lparr>total_count := total_count m + sb_count (lut_prev m) sample, lut_prev := sample\<rparr>)"
  using assms by (simp add: Lut_pattern_match_def Let_def lut_lookup)

lemma coupled_new: "coupled StateMachine_new SlidingBitmask_new Lut_new"
  by (simp add: coupled_def StateMachine_new_def SlidingBitmask_new_def Lut_new_def
      carried_def pos_of_def)

lemma coupled_step:
  assumes "coupled sm sb lut"
  shows "coupled (snd (StateMachine_pattern_match sm sample))
       (snd (SlidingBitmask_pattern_match sb sample)) (snd (Lut_pattern_match lut sample))"
    and "fst (StateMachine_pattern_match sm sample) = sb_count (sb_prev sb) sample"
    and "fst (Lut_pattern_match lut sample) = sb_count (sb_prev sb) sample"
proof -
  from assms have p: "pos sm = carried (sb_prev sb)" and l: "count_lut lut = count_lut Lut_new"
    and rest: "lut_prev lut = sb_prev sb" "total_count sm = total_count sb"
      "total_count lut = total_count sb"
    by (simp_all add: coupled_def)
  note eqs = sm_pattern_match_eq [OF p] lut_pattern_match_eq [OF l] sb_pattern_match_eq
  show "coupled (snd (StateMachine_pattern_match sm sample))
       (snd (SlidingBitmask_pattern_match sb sample)) (snd (Lut_pattern_match lut sample))"
    using l rest by (simp add: eqs coupled_def)
  show "fst (StateMachine_pattern_match sm sample) = sb_count (sb_prev sb) sample"
    by (simp add: eqs)
  show "fst (Lut_pattern_match lut sample) = sb_count (sb_prev sb) sample"
    using rest by (simp add: eqs)
qed

section \<open>Byte sequences\<close>

lemma feed_Nil: "feed pm [] m = m"
  by (simp add: feed_def)

lemma feed_Cons: "feed pm (sample # samples) m = feed pm samples (snd (pm m sample))"
  by (simp add: feed_def)

lemma feed_snoc: "feed pm (samples @ [sample]) m = snd (pm (feed pm samples m) sample)"
  by (simp add: feed_def)

lemma coupled_feed:
  "coupled sm sb lut \<Longrightarrow>
     coupled (feed StateMachine_pattern_match samples sm)
       (feed SlidingBitmask_pattern_match samples sb) (feed Lut_pattern_match samples lut)"
proof (induction samples arbitrary: sm sb lut)
  case Nil
  then show ?case by (simp add: feed_Nil)
next
  case (Cons sample samples)
  from Cons.prems have "coupled (snd (StateMachine_pattern_match sm sample))
       (snd (SlidingBitmask_pattern_match sb sample)) (snd (Lut_pattern_match lut sample))"
    by (rule coupled_step)
  then show ?case by (simp add: feed_Cons Cons.IH)
qed

lemmas coupled_run = coupled_feed [OF coupled_new]

section \<open>Equivalence of the three matchers\<close>

text \<open>
  Claim C1. A new StateMachine, a new SlidingBitmask and a new Lut are fed the same
  bytes, one byte per \<open>pattern_match\<close> call and in the same order. After every prefix of
  the sequence (\<open>take n samples\<close>, for every \<open>n\<close>) the three values of \<open>total_count\<close> are
  equal. The equality is one of 32-bit values, so it also holds once the totals have
  wrapped around.
\<close>

theorem totals_equal_at_every_prefix:
  "total_count (feed StateMachine_pattern_match (take n samples) StateMachine_new) =
     total_count (feed SlidingBitmask_pattern_match (take n samples) SlidingBitmask_new) \<and>
   total_count (feed Lut_pattern_match (take n samples) Lut_new) =
     total_count (feed SlidingBitmask_pattern_match (take n samples) SlidingBitmask_new)"
  using coupled_run [of "take n samples"] by (simp add: coupled_def)

section \<open>The returned count and the running total\<close>

lemma total_after_call:
  "total_count (snd (StateMachine_pattern_match sm sample)) =
     total_count sm + fst (StateMachine_pattern_match sm sample)"
  "total_count (snd (SlidingBitmask_pattern_match sb sample)) =
     total_count sb + fst (SlidingBitmask_pattern_match sb sample)"
  "total_count (snd (Lut_pattern_match lut sample)) =
     total_count lut + fst (Lut_pattern_match lut sample)"
  by (simp_all add: StateMachine_pattern_match_def SlidingBitmask_pattern_match_def
      Lut_pattern_match_def Let_def split_beta)

text \<open>The sum of two \<open>int\<close> values that does not leave the range of \<open>int\<close>.\<close>

lemma sint_add_in_range:
  fixes a b :: i32
  assumes "- 2147483648 \<le> sint a + sint b" and "sint a + sint b \<le> 2147483647"
  shows "sint (a + b) = sint a + sint b"
proof -
  from assms have "- (2 ^ 31) \<le> sint a + sint b" "sint a + sint b < 2 ^ 31"
    by simp_all
  then have "signed_take_bit 31 (sint a + sint b) = sint a + sint b"
    by (rule signed_take_bit_int_eq_self)
  then show ?thesis by (simp add: sint_word_ariths)
qed

text \<open>
  Claim C9, amended. For each of the three matchers, in any state and for any sample,
  the value of \<open>total_count\<close> after a \<open>pattern_match\<close> call is the value of
  \<open>total_count\<close> before the call plus the returned count, provided that this sum lies
  within the range of \<open>int\<close>, from \<open>-2147483648\<close> to \<open>2147483647\<close>. (In every case the
  new total is the 32-bit sum, which wraps around.)
\<close>

theorem returned_count_is_increase:
  "(let (counter, m') = StateMachine_pattern_match sm sample in
      total_count m' = total_count sm + counter \<and>
      (- 2147483648 \<le> sint (total_count sm) + sint counter \<and>
       sint (total_count sm) + sint counter \<le> 2147483647 \<longrightarrow>
         sint (total_count m') = sint (total_count sm) + sint counter)) \<and>
   (let (counter, m') = SlidingBitmask_pattern_match sb sample in
      total_count m' = total_count sb + counter \<and>
      (- 2147483648 \<le> sint (total_count sb) + sint counter \<and>
       sint (total_count sb) + sint counter \<le> 2147483647 \<longrightarrow>
         sint (total_count m') = sint (total_count sb) + sint counter)) \<and>
   (let (counter, m') = Lut_pattern_match lut sample in
      total_count m' = total_count lut + counter \<and>
      (- 2147483648 \<le> sint (total_count lut) + sint counter \<and>
       sint (total_count lut) + sint counter \<le> 2147483647 \<longrightarrow>
         sint (total_count m') = sint (total_count lut) + sint counter))"
  unfolding Let_def split_beta total_after_call
  by (simp add: sint_add_in_range)

lemma sm_example:
  "StateMachine_pattern_match \<lparr>total_count = 5, pos = 2\<rparr> 0x36 = (3, \<lparr>total_count = 8, pos = 0\<rparr>)"
  by (simp add: StateMachine_pattern_match_def sm_loop.simps sm_step_def)

lemma sb_example:
  "SlidingBitmask_pattern_match \<lparr>total_count = 5, sb_prev = 3\<rparr> 0x36 =
     (3, \<lparr>total_count = 8, sb_prev = 0x36\<rparr>)"
  by (simp add: SlidingBitmask_pattern_match_def sb_loop.simps sb_step_def window_match_def
      combine_def pattern_def)

lemma lut_example:
  "Lut_pattern_match (Lut_new\<lparr>total_count := 5, lut_prev := 3\<rparr>) 0x36 =
     (3, Lut_new\<lparr>total_count := 8, lut_prev := 0x36\<rparr>)"
proof -
  have "sb_count 3 0x36 = 3"
    using sb_example by (simp add: sb_pattern_match_eq)
  then show ?thesis
    using lut_pattern_match_eq [of "Lut_new\<lparr>total_count := 5, lut_prev := 3\<rparr>" "0x36"]
    by simp
qed

theorem returned_count_is_increase_witness:
  "- 2147483648 \<le> sint (5 :: i32) + sint (3 :: i32) \<and>
   sint (5 :: i32) + sint (3 :: i32) \<le> 2147483647 \<and>
   sint (total_count (snd (StateMachine_pattern_match \<lparr>total_count = 5, pos = 2\<rparr> 0x36))) = 8 \<and>
   sint (total_count (snd (SlidingBitmask_pattern_match \<lparr>total_count = 5, sb_prev = 3\<rparr> 0x36))) = 8 \<and>
   sint (total_count (snd (Lut_pattern_match (Lut_new\<lparr>total_count := 5, lut_prev := 3\<rparr>) 0x36))) = 8"
  using returned_count_is_increase [of "\<lparr>total_count = 5, pos = 2\<rparr>" "0x36"
      "\<lparr>total_count = 5, sb_prev = 3\<rparr>" "Lut_new\<lparr>total_count := 5, lut_prev := 3\<rparr>"]
  unfolding Let_def split_beta sm_example sb_example lut_example
  by simp

section \<open>Worked examples\<close>

lemma sb_count_C0: "sb_count 0 0xC0 = 1"
  by (simp add: sb_count_def sb_loop.simps sb_step_def window_match_def combine_def pattern_def)

text \<open>
  Claim C6. The byte \<open>0xC0\<close> as the first byte after construction: each of the three
  matchers returns 1 from \<open>pattern_match\<close>, and each \<open>total_count\<close> is 1 afterwards.
\<close>

theorem first_byte_C0:
  "StateMachine_pattern_match StateMachine_new 0xC0 = (1, \<lparr>total_count = 1, pos = 0\<rparr>) \<and>
   SlidingBitmask_pattern_match SlidingBitmask_new 0xC0 = (1, \<lparr>total_count = 1, sb_prev = 0xC0\<rparr>) \<and>
   Lut_pattern_match Lut_new 0xC0 =
     (1, \<lparr>total_count = 1, lut_prev = 0xC0, count_lut = count_lut Lut_new\<rparr>)"
proof (intro conjI)
  have "pos StateMachine_new = carried 0"
    by (simp add: StateMachine_new_def carried_def pos_of_def)
  from sm_pattern_match_eq [OF this, of "0xC0"]
  show "StateMachine_pattern_match StateMachine_new 0xC0 = (1, \<lparr>total_count = 1, pos = 0\<rparr>)"
    by (simp add: sb_count_C0 StateMachine_new_def carried_def pos_of_def)
  show "SlidingBitmask_pattern_match SlidingBitmask_new 0xC0 = (1, \<lparr>total_count = 1, sb_prev = 0xC0\<rparr>)"
    by (simp add: sb_pattern_match_eq SlidingBitmask_new_def sb_count_C0)
  show "Lut_pattern_match Lut_new 0xC0 =
     (1, \<lparr>total_count = 1, lut_prev = 0xC0, count_lut = count_lut Lut_new\<rparr>)"
    using lut_pattern_match_eq [OF refl, of "0xC0"]
    by (simp add: Lut_new_def sb_count_C0)
qed

section \<open>The state machine against the transition relation\<close>

lemma sm_step_transition:
  "sm_step sample i (pos_code s, c) =
     (pos_code (fst (transition s (bit sample i))), c + of_nat (snd (transition s (bit sample i))))"
  by (cases s; cases "bit sample i")
    (simp_all add: sm_step_def Let_def bit_iff_and_push_bit_not_eq_0)

lemma fold_sm_step_transitions:
  "fold (sm_step sample) is (pos_code s, c) =
     (pos_code (fst (transitions s (map (bit sample) is))),
      c + of_nat (snd (transitions s (map (bit sample) is))))"
proof (induction "is" arbitrary: s c)
  case Nil
  show ?case by simp
next
  case (Cons i "is")
  show ?case
    by (simp add: sm_step_transition Cons.IH split_beta Let_def add.assoc)
qed

lemma transitions_le: "snd (transitions s bs) \<le> length bs"
proof (induction bs arbitrary: s)
  case Nil
  show ?case by simp
next
  case (Cons b bs)
  have "snd (transition s b) \<le> 1" by (cases s; cases b) simp_all
  with Cons [of "fst (transition s b)"] show ?case
    by (simp add: split_beta Let_def)
qed

lemma rev_upt_8: "rev [0..<8] = [7, 6, 5, 4, 3, 2, 1, 0]"
  by (simp add: upt_rec)

text \<open>
  Claim C3. One \<open>StateMachine::pattern_match\<close> call, entered with \<open>pos\<close> standing for a
  state of the transition relation, applies that relation to the 8 bits of the sample
  from bit 7 down to bit 0: the call returns the number of matches recorded during these
  8 transitions, adds it to \<open>total_count\<close>, and leaves in \<open>pos\<close> the state reached, from
  which the next call starts.
\<close>

theorem state_machine_transitions:
  assumes "pos m = pos_code s"
  shows "length (msb_first sample) = 8 \<and>
    StateMachine_pattern_match m sample =
      (let (s', k) = transitions s (msb_first sample)
       in (of_nat k, m\<lparr>total_count := total_count m + of_nat k, pos := pos_code s'\<rparr>)) \<and>
    sint (fst (StateMachine_pattern_match m sample)) = int (snd (transitions s (msb_first sample)))"
proof -
  let ?r = "transitions s (msb_first sample)"
  have loop: "sm_loop 7 sample (pos m, 0) = (pos_code (fst ?r), of_nat (snd ?r))"
    using fold_sm_step_transitions [of sample "[7, 6, 5, 4, 3, 2, 1, 0]" s 0] assms
    by (simp only: sm_loop_7 rev_upt_8 msb_first_def add_0)
  then have call: "StateMachine_pattern_match m sample =
      (of_nat (snd ?r), m\<lparr>total_count := total_count m + of_nat (snd ?r), pos := pos_code (fst ?r)\<rparr>)"
    by (simp add: StateMachine_pattern_match_def)
  have "snd ?r \<le> length (msb_first sample)" by (rule transitions_le)
  then have "snd ?r \<le> 8" by (simp add: msb_first_def)
  then have "signed_take_bit 31 (int (snd ?r)) = int (snd ?r)"
    by (intro signed_take_bit_int_eq_self) simp_all
  then have "sint (of_nat (snd ?r) :: i32) = int (snd ?r)"
    by (simp add: signed_of_nat)
  with call show ?thesis
    by (simp add: msb_first_def split_beta)
qed

theorem state_machine_transitions_witness:
  "pos \<lparr>total_count = 5, pos = 2\<rparr> = pos_code P2 \<and>
   StateMachine_pattern_match \<lparr>total_count = 5, pos = 2\<rparr> 0x36 = (3, \<lparr>total_count = 8, pos = 0\<rparr>)"
  using state_machine_transitions [of "\<lparr>total_count = 5, pos = 2\<rparr>" P2 "0x36"]
  by (simp add: msb_first_def)

section \<open>The position stays within its three values\<close>

lemma sm_step_closed:
  assumes "p \<in> {0, 1, 2}"
  shows "fst (sm_step sample i (p, counter)) \<in> {0, 1, 2}"
  using assms by (auto simp add: sm_step_def Let_def)

lemma fold_sm_step_closed:
  "p \<in> {0, 1, 2} \<Longrightarrow> fst (fold (sm_step sample) is (p, counter)) \<in> {0, 1, 2}"
proof (induction "is" arbitrary: p counter)
  case Nil
  then show ?case by simp
next
  case (Cons i "is")
  from Cons.prems have "fst (sm_step sample i (p, counter)) \<in> {0, 1, 2}"
    by (rule sm_step_closed)
  from Cons.IH [OF this, of "snd (sm_step sample i (p, counter))"] show ?case
    by simp
qed

lemma pos_pattern_match_closed:
  assumes "pos m \<in> {0, 1, 2}"
  shows "pos (snd (StateMachine_pattern_match m sample)) \<in> {0, 1, 2}"
proof -
  have "pos (snd (StateMachine_pattern_match m sample)) = fst (sm_loop 7 sample (pos m, 0))"
    by (simp add: StateMachine_pattern_match_def split_beta)
  with fold_sm_step_closed [OF assms, of sample "rev [0..<8]" 0] show ?thesis
    by (simp only: sm_loop_7)
qed

lemma pos_feed_closed:
  "pos (feed StateMachine_pattern_match samples StateMachine_new) \<in> {0, 1, 2}"
proof (induction samples rule: rev_induct)
  case Nil
  show ?case by (simp add: feed_Nil StateMachine_new_def)
next
  case (snoc sample samples)
  then show ?case by (simp only: feed_snoc pos_pattern_match_closed)
qed

text \<open>
  Claim C10. \<open>pos\<close> is 0 at construction; one iteration of the loop takes a \<open>pos\<close> in
  \<open>{0, 1, 2}\<close> to a \<open>pos\<close> in \<open>{0, 1, 2}\<close>; after any sequence of samples \<open>pos\<close> is in
  \<open>{0, 1, 2}\<close>; and in a further call it is in \<open>{0, 1, 2}\<close> after any number \<open>k\<close> of
  iterations of the loop (the loop runs through \<open>rev [0..<8]\<close>, lemma \<open>sm_loop_7\<close>).
  The \<open>default\<close> branch of the \<open>switch\<close> is the last \<open>else\<close> of \<open>sm_step\<close>, taken
  only when \<open>pos\<close> is none of 0, 1 and 2, so it is never taken.
\<close>

theorem pos_in_range:
  "pos StateMachine_new = 0 \<and>
   (p \<in> {0, 1, 2} \<longrightarrow> fst (sm_step sample i (p, counter)) \<in> {0, 1, 2}) \<and>
   pos (feed StateMachine_pattern_match samples StateMachine_new) \<in> {0, 1, 2} \<and>
   fst (fold (sm_step sample) (take k (rev [0..<8]))
          (pos (feed StateMachine_pattern_match samples StateMachine_new), 0)) \<in> {0, 1, 2}"
proof (intro conjI impI)
  show "pos StateMachine_new = 0"
    by (simp add: StateMachine_new_def)
  show "fst (sm_step sample i (p, counter)) \<in> {0, 1, 2}" if "p \<in> {0, 1, 2}"
    using that by (rule sm_step_closed)
  show reached: "pos (feed StateMachine_pattern_match samples StateMachine_new) \<in> {0, 1, 2}"
    by (rule pos_feed_closed)
  then show "fst (fold (sm_step sample) (take k (rev [0..<8]))
          (pos (feed StateMachine_pattern_match samples StateMachine_new), 0)) \<in> {0, 1, 2}"
    by (rule fold_sm_step_closed)
qed

theorem pos_in_range_witness:
  "(1 :: i32) \<in> {0, 1, 2} \<and> fst (sm_step 0x80 7 (1, 0)) \<in> {0, 1, 2} \<and>
   fst (fold (sm_step 0x80) (take 2 (rev [0..<8]))
          (pos (feed StateMachine_pattern_match [0x03] StateMachine_new), 0)) \<in> {0, 1, 2}"
  using pos_in_range [where p = 1 and sample = "0x80" and i = 7 and counter = 0
      and samples = "[0x03]" and k = 2]
  by simp


section \<open>Only two carried bits matter\<close>

lemma sb_count_window_count: "sb_count p sample = of_nat (window_count (combine p sample))"
  by (simp add: sb_count_def sb_loop_window_count)

lemma low_two_bits:
  fixes p1 p2 :: u8
  assumes "p1 AND 3 = p2 AND 3" and "n < 2"
  shows "bit p1 n = bit p2 n"
proof -
  from assms(1) have "bit (p1 AND 3) n = bit (p2 AND 3) n" by simp
  with assms(2) show ?thesis by (simp add: bit_and_iff three_bits)
qed

lemma sb_count_low_two_bits:
  assumes "p1 AND 3 = p2 AND 3"
  shows "sb_count p1 sample = sb_count p2 sample"
proof -
  have "window_count (combine p1 sample) = window_count (combine p2 sample)"
  proof (rule window_count_cong)
    fix n :: nat assume "n < 10"
    then show "bit (combine p1 sample) n = bit (combine p2 sample) n"
      using low_two_bits [OF assms, of "n - 8"] by (simp add: bit_combine)
  qed
  then show ?thesis by (simp add: sb_count_window_count)
qed

text \<open>
  Claim C4. The count returned by \<open>SlidingBitmask::pattern_match\<close> depends only on the
  low 2 bits of the carried previous byte and on the sample: two objects whose \<open>prev\<close>
  agree under \<open>& 3\<close> return the same count for the same sample. (Lemma \<open>lut_lookup\<close> is
  the use the Lut makes of it: the entry at the index masked with \<open>0x3FF\<close> is the count
  of the sliding bitmask for the unmasked previous byte.)
\<close>

theorem count_depends_on_low_two_bits:
  assumes "sb_prev m1 AND 3 = sb_prev m2 AND 3"
  shows "fst (SlidingBitmask_pattern_match m1 sample) = fst (SlidingBitmask_pattern_match m2 sample)"
  using sb_count_low_two_bits [OF assms] by (simp add: sb_pattern_match_eq)

theorem count_depends_on_low_two_bits_witness:
  "sb_prev \<lparr>total_count = 0, sb_prev = 0x07\<rparr> AND 3 = sb_prev \<lparr>total_count = 9, sb_prev = 0xFB\<rparr> AND 3 \<and>
   fst (SlidingBitmask_pattern_match \<lparr>total_count = 0, sb_prev = 0x07\<rparr> 0x1B) =
   fst (SlidingBitmask_pattern_match \<lparr>total_count = 9, sb_prev = 0xFB\<rparr> 0x1B)"
proof -
  have h: "sb_prev \<lparr>total_count = 0, sb_prev = 0x07\<rparr> AND 3 = sb_prev \<lparr>total_count = 9, sb_prev = 0xFB\<rparr> AND 3"
    by simp
  from h count_depends_on_low_two_bits [OF h, of "0x1B"] show ?thesis by (rule conjI)
qed

section \<open>The entries of the table\<close>

text \<open>
  Claim C2. For every index \<open>combined_samples\<close> below 1024, the entry of \<open>count_lut\<close>
  after construction is the count of a new SlidingBitmask fed the two bytes
  \<open>combined_samples >> 8\<close> and \<open>combined_samples & 0xFF\<close> (its running total after the
  two calls), and it is the number of the 8 offsets \<open>7, \<dots>, 0\<close> at which the 3-bit
  window of \<open>combined_samples\<close> equals the pattern.
\<close>

theorem table_entries:
  fixes combined_samples :: u16
  assumes "combined_samples < 1024"
  shows "count_lut Lut_new ! unat combined_samples =
      total_count (feed SlidingBitmask_pattern_match
        [ucast (drop_bit 8 combined_samples), ucast (combined_samples AND 0xFF)] SlidingBitmask_new) \<and>
    count_lut Lut_new ! unat combined_samples = of_nat (window_count combined_samples) \<and>
    sint (count_lut Lut_new ! unat combined_samples) = int (window_count combined_samples)"
proof -
  from assms have less: "unat combined_samples < 1024"
    by (simp add: word_less_nat_alt)
  then have entry: "count_lut Lut_new ! unat combined_samples = lut_entry combined_samples"
    using count_lut_new [of "unat combined_samples"] by simp
  have "lut_entry combined_samples =
      total_count (feed SlidingBitmask_pattern_match
        [ucast (drop_bit 8 combined_samples), ucast (combined_samples AND 0xFF)] SlidingBitmask_new)"
    by (simp add: lut_entry_def feed_Cons feed_Nil SlidingBitmask_pattern_match_def
        SlidingBitmask_new_def Let_def)
  with entry lut_entry_window_count [OF less] show ?thesis
    by (simp add: sint_window_count)
qed

theorem table_entries_witness:
  "(0x300 :: u16) < 1024 \<and> count_lut Lut_new ! 768 = 1"
proof -
  have h: "(0x300 :: u16) < 1024" by simp
  have "total_count (feed SlidingBitmask_pattern_match
        [ucast (drop_bit 8 (0x300 :: u16)), ucast ((0x300 :: u16) AND 0xFF)] SlidingBitmask_new) = 1"
    by (simp add: feed_Cons feed_Nil SlidingBitmask_pattern_match_def SlidingBitmask_new_def
        Let_def sb_loop.simps sb_step_def window_match_def combine_def pattern_def)
  with table_entries [OF h] h show ?thesis by simp
qed


section \<open>Counts along a run\<close>

lemma sint_sb_count: "sint (sb_count p sample) = int (window_count (combine p sample))"
  by (simp add: sb_count_window_count sint_window_count)

lemma sb_prev_feed_snoc:
  "sb_prev (feed SlidingBitmask_pattern_match (samples @ [b]) m) = b"
  by (simp add: feed_snoc sb_pattern_match_eq)

lemma run_counts:
  "fst (StateMachine_pattern_match (feed StateMachine_pattern_match samples StateMachine_new) sample) =
     sb_count (sb_prev (feed SlidingBitmask_pattern_match samples SlidingBitmask_new)) sample"
  "fst (SlidingBitmask_pattern_match (feed SlidingBitmask_pattern_match samples SlidingBitmask_new) sample) =
     sb_count (sb_prev (feed SlidingBitmask_pattern_match samples SlidingBitmask_new)) sample"
  "fst (Lut_pattern_match (feed Lut_pattern_match samples Lut_new) sample) =
     sb_count (sb_prev (feed SlidingBitmask_pattern_match samples SlidingBitmask_new)) sample"
  using coupled_step(2,3) [OF coupled_run, of samples sample]
  by (simp_all add: sb_pattern_match_eq)

section \<open>A match across the byte boundary\<close>

lemma boundary_window:
  fixes b sample :: u8
  assumes "b AND 3 = 3" and "sample AND 0x80 = 0"
  shows "window_match (combine b sample) 7"
proof -
  from assms(1) have "bit (b AND 3) n = bit (3 :: u8) n" for n by simp
  from this [of 0] this [of 1] have b: "bit b 0" "bit b 1"
    by (simp_all add: bit_and_iff three_bits)
  have "push_bit 7 (1 :: u8) = 0x80" by simp
  with assms(2) have s: "\<not> bit sample 7"
    by (simp add: bit_iff_and_push_bit_not_eq_0)
  from b s show ?thesis
    by (simp add: window_match_bits bit_combine)
qed

lemma window_count_pos:
  assumes "window_match c i" and "i < 8"
  shows "1 \<le> window_count c"
proof -
  from assms have "i \<in> set (filter (window_match c) (rev [0..<8]))" by simp
  then have "0 < length (filter (window_match c) (rev [0..<8]))"
    by (rule length_pos_if_in_set)
  then show ?thesis unfolding window_count_def by linarith
qed

text \<open>
  Claim C5. Each of the three matchers has processed any sequence of samples and then
  a byte \<open>b\<close> that ends in two 1-bits (\<open>b & 3 == 3\<close>). If the most significant bit of
  the next sample is 0, then the window at offset 7 of the combined value, the one that
  closes with bit 7 of the sample, is a match, and the \<open>pattern_match\<close> call for the
  sample returns a count of at least 1.
\<close>

theorem boundary_match:
  fixes b sample :: u8
  assumes "b AND 3 = 3" and "sample AND 0x80 = 0"
  shows "window_match (combine b sample) 7 \<and>
    1 \<le> sint (fst (StateMachine_pattern_match
          (feed StateMachine_pattern_match (samples @ [b]) StateMachine_new) sample)) \<and>
    1 \<le> sint (fst (SlidingBitmask_pattern_match
          (feed SlidingBitmask_pattern_match (samples @ [b]) SlidingBitmask_new) sample)) \<and>
    1 \<le> sint (fst (Lut_pattern_match (feed Lut_pattern_match (samples @ [b]) Lut_new) sample))"
proof -
  have w: "window_match (combine b sample) 7"
    using assms by (rule boundary_window)
  then have "1 \<le> window_count (combine b sample)"
    by (rule window_count_pos) simp
  then have "1 \<le> sint (sb_count b sample)"
    by (simp add: sint_sb_count)
  with w show ?thesis
    by (simp only: run_counts sb_prev_feed_snoc simp_thms)
qed

theorem boundary_match_witness:
  "(0x03 :: u8) AND 3 = 3 \<and> (0x7F :: u8) AND 0x80 = 0 \<and>
   1 \<le> sint (fst (StateMachine_pattern_match
          (feed StateMachine_pattern_match ([0xAA] @ [0x03]) StateMachine_new) 0x7F)) \<and>
   1 \<le> sint (fst (SlidingBitmask_pattern_match
          (feed SlidingBitmask_pattern_match ([0xAA] @ [0x03]) SlidingBitmask_new) 0x7F)) \<and>
   1 \<le> sint (fst (Lut_pattern_match (feed Lut_pattern_match ([0xAA] @ [0x03]) Lut_new) 0x7F))"
proof -
  have h1: "(0x03 :: u8) AND 3 = 3" by simp
  have h2: "(0x7F :: u8) AND 0x80 = 0" by simp
  from boundary_match [OF h1 h2, of "[0xAA]"] h1 h2 show ?thesis by simp
qed

section \<open>A stream of 1-bits\<close>

lemma sb_count_FF: "sb_count 0 0xFF = 0" "sb_count 0xFF 0xFF = 0"
  by (simp_all add: sb_count_def sb_loop.simps sb_step_def window_match_def combine_def pattern_def)

lemma feed_replicate_Suc:
  "feed pm (replicate (Suc n) sample) m = snd (pm (feed pm (replicate n sample) m) sample)"
proof -
  have "replicate (Suc n) sample = replicate n sample @ [sample]"
    by (simp add: replicate_append_same)
  then show ?thesis by (simp only: feed_snoc)
qed

lemma sb_feed_FF:
  "feed SlidingBitmask_pattern_match (replicate n 0xFF) SlidingBitmask_new =
     \<lparr>total_count = 0, sb_prev = (if n = 0 then 0 else 0xFF)\<rparr>"
proof (induction n)
  case 0
  show ?case by (simp add: feed_Nil SlidingBitmask_new_def)
next
  case (Suc n)
  show ?case
    by (simp only: feed_replicate_Suc Suc) (simp add: sb_pattern_match_eq sb_count_FF)
qed

lemma sb_count_after_FF:
  "sb_count (sb_prev (feed SlidingBitmask_pattern_match (replicate n 0xFF) SlidingBitmask_new)) 0xFF = 0"
  by (simp add: sb_feed_FF sb_count_FF)

text \<open>
  Claim C7. For every \<open>n\<close>, a new instance of any of the three matchers that is fed
  \<open>n\<close> bytes \<open>0xFF\<close> has \<open>total_count = 0\<close>, and the call for one more byte \<open>0xFF\<close>
  returns 0; so every call of such a sequence returns 0.
\<close>

theorem all_ones_no_match:
  "total_count (feed StateMachine_pattern_match (replicate n 0xFF) StateMachine_new) = 0 \<and>
   total_count (feed SlidingBitmask_pattern_match (replicate n 0xFF) SlidingBitmask_new) = 0 \<and>
   total_count (feed Lut_pattern_match (replicate n 0xFF) Lut_new) = 0 \<and>
   fst (StateMachine_pattern_match
     (feed StateMachine_pattern_match (replicate n 0xFF) StateMachine_new) 0xFF) = 0 \<and>
   fst (SlidingBitmask_pattern_match
     (feed SlidingBitmask_pattern_match (replicate n 0xFF) SlidingBitmask_new) 0xFF) = 0 \<and>
   fst (Lut_pattern_match (feed Lut_pattern_match (replicate n 0xFF) Lut_new) 0xFF) = 0"
proof -
  have "total_count (feed SlidingBitmask_pattern_match (replicate n 0xFF) SlidingBitmask_new) = 0"
    by (simp add: sb_feed_FF)
  with coupled_run [of "replicate n 0xFF"]
  have "total_count (feed StateMachine_pattern_match (replicate n 0xFF) StateMachine_new) = 0"
    "total_count (feed SlidingBitmask_pattern_match (replicate n 0xFF) SlidingBitmask_new) = 0"
    "total_count (feed Lut_pattern_match (replicate n 0xFF) Lut_new) = 0"
    by (simp_all add: coupled_def)
  then show ?thesis
    by (simp only: run_counts sb_count_after_FF simp_thms)
qed


section \<open>Growth of the running total\<close>

lemma total_not_decreased:
  fixes total counter :: i32
  assumes "0 \<le> sint counter" and "sint total + sint counter \<le> 2147483647"
  shows "sint total \<le> sint (total + counter)"
proof -
  from assms(1) have "- 2147483648 \<le> sint total + sint counter"
    using sint_ge [of total] by simp
  then have "sint (total + counter) = sint total + sint counter"
    using assms(2) by (rule sint_add_in_range)
  with assms(1) show ?thesis by simp
qed

lemma sint_sb_count_bounds: "0 \<le> sint (sb_count p sample)" "sint (sb_count p sample) \<le> 8"
  using window_count_le [of "combine p sample"] by (simp_all add: sint_sb_count)

text \<open>
  Claim C8, amended. For each of the three matchers \<open>total_count\<close> is 0 at
  construction, and every \<open>pattern_match\<close> call made after any sequence of samples
  returns a non-negative count. The call does not decrease \<open>total_count\<close> provided that
  \<open>total_count\<close> plus the returned count does not exceed \<open>INT_MAX = 2147483647\<close>.
\<close>

theorem totals_monotone_below_overflow:
  "total_count StateMachine_new = 0 \<and> total_count SlidingBitmask_new = 0 \<and>
   total_count Lut_new = 0 \<and>
   (let m = feed StateMachine_pattern_match samples StateMachine_new;
        (counter, m') = StateMachine_pattern_match m sample
    in 0 \<le> sint counter \<and>
       (sint (total_count m) + sint counter \<le> 2147483647 \<longrightarrow>
          sint (total_count m) \<le> sint (total_count m'))) \<and>
   (let m = feed SlidingBitmask_pattern_match samples SlidingBitmask_new;
        (counter, m') = SlidingBitmask_pattern_match m sample
    in 0 \<le> sint counter \<and>
       (sint (total_count m) + sint counter \<le> 2147483647 \<longrightarrow>
          sint (total_count m) \<le> sint (total_count m'))) \<and>
   (let m = feed Lut_pattern_match samples Lut_new;
        (counter, m') = Lut_pattern_match m sample
    in 0 \<le> sint counter \<and>
       (sint (total_count m) + sint counter \<le> 2147483647 \<longrightarrow>
          sint (total_count m) \<le> sint (total_count m')))"
proof -
  let ?c = "sb_count (sb_prev (feed SlidingBitmask_pattern_match samples SlidingBitmask_new)) sample"
  have nonneg: "0 \<le> sint ?c" by (rule sint_sb_count_bounds)
  have new: "total_count StateMachine_new = 0" "total_count SlidingBitmask_new = 0"
    "total_count Lut_new = 0"
    by (simp_all add: StateMachine_new_def SlidingBitmask_new_def Lut_new_def)
  have mono: "sint total + sint ?c \<le> 2147483647 \<longrightarrow> sint total \<le> sint (total + ?c)" for total
    using total_not_decreased [OF nonneg] by blast
  show ?thesis
    unfolding Let_def split_beta total_after_call run_counts
    using new nonneg mono by blast
qed

theorem totals_monotone_below_overflow_witness:
  "sint (total_count (feed StateMachine_pattern_match [] StateMachine_new)) +
     sint (fst (StateMachine_pattern_match (feed StateMachine_pattern_match [] StateMachine_new) 0xC0))
     \<le> 2147483647 \<and>
   sint (total_count (feed SlidingBitmask_pattern_match [] SlidingBitmask_new)) +
     sint (fst (SlidingBitmask_pattern_match (feed SlidingBitmask_pattern_match [] SlidingBitmask_new) 0xC0))
     \<le> 2147483647 \<and>
   sint (total_count (feed Lut_pattern_match [] Lut_new)) +
     sint (fst (Lut_pattern_match (feed Lut_pattern_match [] Lut_new) 0xC0))
     \<le> 2147483647 \<and>
   sint (total_count (feed StateMachine_pattern_match [] StateMachine_new)) \<le>
     sint (total_count (snd (StateMachine_pattern_match
       (feed StateMachine_pattern_match [] StateMachine_new) 0xC0))) \<and>
   sint (total_count (feed SlidingBitmask_pattern_match [] SlidingBitmask_new)) \<le>
     sint (total_count (snd (SlidingBitmask_pattern_match
       (feed SlidingBitmask_pattern_match [] SlidingBitmask_new) 0xC0))) \<and>
   sint (total_count (feed Lut_pattern_match [] Lut_new)) \<le>
     sint (total_count (snd (Lut_pattern_match (feed Lut_pattern_match [] Lut_new) 0xC0)))"
proof -
  have prev: "sb_prev (feed SlidingBitmask_pattern_match [] SlidingBitmask_new) = 0"
    by (simp add: feed_Nil SlidingBitmask_new_def)
  have counts:
    "fst (StateMachine_pattern_match (feed StateMachine_pattern_match [] StateMachine_new) 0xC0) = 1"
    "fst (SlidingBitmask_pattern_match (feed SlidingBitmask_pattern_match [] SlidingBitmask_new) 0xC0) = 1"
    "fst (Lut_pattern_match (feed Lut_pattern_match [] Lut_new) 0xC0) = 1"
    by (simp_all only: run_counts prev sb_count_C0)
  have totals:
    "total_count (feed StateMachine_pattern_match [] StateMachine_new) = 0"
    "total_count (feed SlidingBitmask_pattern_match [] SlidingBitmask_new) = 0"
    "total_count (feed Lut_pattern_match [] Lut_new) = 0"
    by (simp_all add: feed_Nil StateMachine_new_def SlidingBitmask_new_def Lut_new_def)
  from totals_monotone_below_overflow [of "[]" "0xC0"] show ?thesis
    unfolding Let_def split_beta by (simp add: counts totals)
qed

text \<open>
  Without that proviso the total does decrease. Every byte \<open>0xC0\<close> of a stream of such
  bytes adds one match, so after \<open>2147483647\<close> of them \<open>total_count\<close> is \<open>INT_MAX\<close>, and
  the \<open>+=\<close> of the next call overflows the \<open>int\<close>.
\<close>

lemma sb_count_C0_C0: "sb_count 0xC0 0xC0 = 1"
  by (simp add: sb_count_def sb_loop.simps sb_step_def window_match_def combine_def pattern_def)

lemma sb_feed_C0:
  "feed SlidingBitmask_pattern_match (replicate n 0xC0) SlidingBitmask_new =
     \<lparr>total_count = of_nat n, sb_prev = (if n = 0 then 0 else 0xC0)\<rparr>"
proof (induction n)
  case 0
  show ?case by (simp add: feed_Nil SlidingBitmask_new_def)
next
  case (Suc n)
  show ?case
    by (simp only: feed_replicate_Suc Suc) (simp add: sb_pattern_match_eq sb_count_C0 sb_count_C0_C0)
qed

text \<open>
  Claim C8 as stated, refuted: a new SlidingBitmask is fed \<open>2147483647\<close> bytes \<open>0xC0\<close>
  and then one more; the additional byte takes \<open>total_count\<close> from \<open>2147483647\<close> to
  \<open>-2147483648\<close>.
\<close>

theorem total_decreases_at_overflow:
  "\<not> sint (total_count (feed SlidingBitmask_pattern_match
              (replicate 2147483647 0xC0) SlidingBitmask_new))
     \<le> sint (total_count (feed SlidingBitmask_pattern_match
              (replicate 2147483647 0xC0 @ [0xC0]) SlidingBitmask_new))"
proof -
  have before: "total_count (feed SlidingBitmask_pattern_match
      (replicate 2147483647 0xC0) SlidingBitmask_new) = 2147483647"
    by (simp only: sb_feed_C0) simp
  have "replicate 2147483647 (0xC0 :: u8) @ [0xC0] = replicate (Suc 2147483647) 0xC0"
    by (simp only: replicate_append_same replicate_Suc)
  then have after: "total_count (feed SlidingBitmask_pattern_match
      (replicate 2147483647 0xC0 @ [0xC0]) SlidingBitmask_new) = 2147483648"
    by (simp only: sb_feed_C0) simp
  show ?thesis
    unfolding before after by simp
qed


section \<open>The returned count at the overflow of the running total\<close>

lemma sb_at_int_max:
  "feed SlidingBitmask_pattern_match (replicate 2147483647 0xC0) SlidingBitmask_new =
     \<lparr>total_count = 2147483647, sb_prev = 0xC0\<rparr>"
  by (simp only: sb_feed_C0) simp

text \<open>
  Claim C9 as stated, refuted: a new SlidingBitmask that has been fed \<open>2147483647\<close>
  bytes \<open>0xC0\<close> has \<open>total_count = 2147483647\<close>. The call for one more byte \<open>0xC0\<close>
  returns 1 and leaves \<open>total_count = -2147483648\<close>, which is not the total before the
  call plus the returned count.
\<close>

theorem returned_count_not_increase_at_overflow:
  "fst (SlidingBitmask_pattern_match
      (feed SlidingBitmask_pattern_match (replicate 2147483647 0xC0) SlidingBitmask_new) 0xC0) = 1 \<and>
   sint (total_count (feed SlidingBitmask_pattern_match
      (replicate 2147483647 0xC0) SlidingBitmask_new)) = 2147483647 \<and>
   sint (total_count (snd (SlidingBitmask_pattern_match
      (feed SlidingBitmask_pattern_match (replicate 2147483647 0xC0) SlidingBitmask_new) 0xC0)))
     = - 2147483648 \<and>
   \<not> sint (total_count (snd (SlidingBitmask_pattern_match
      (feed SlidingBitmask_pattern_match (replicate 2147483647 0xC0) SlidingBitmask_new) 0xC0)))
     = sint (total_count (feed SlidingBitmask_pattern_match
          (replicate 2147483647 0xC0) SlidingBitmask_new))
       + sint (fst (SlidingBitmask_pattern_match
          (feed SlidingBitmask_pattern_match (replicate 2147483647 0xC0) SlidingBitmask_new) 0xC0))"
  unfolding sb_at_int_max
  by (simp add: sb_pattern_match_eq sb_count_C0_C0)

end
